theory Spec2Isabelle
  imports Complex_Main
begin

section \<open>Python values\<close>

text \<open>
  The proxy (\<^verbatim>\<open>lmstudio_vision_proxy.py\<close>) works on decoded JSON: the request body is a
  \<^verbatim>\<open>Dict[str, Any]\<close>, its fields are arbitrary JSON values. A Python \<^verbatim>\<open>str\<close> is a
  sequence of Unicode code points, so it is modelled as a list of code points
  (\<open>nat\<close>); \<open>str ''abc''\<close> is the literal. A \<^verbatim>\<open>dict\<close> is an association list in
  insertion order, read with \<open>map_of\<close>. JSON numbers only matter through their
  truthiness and through whether they can be written out again, so one constructor
  over the rationals stands for \<^verbatim>\<open>int\<close> and the finite \<^verbatim>\<open>float\<close>s, and one more for
  the floats \<^verbatim>\<open>inf\<close>, \<^verbatim>\<open>-inf\<close> and \<^verbatim>\<open>nan\<close>, which Python's decoder returns for
  \<^verbatim>\<open>1e999\<close>, \<^verbatim>\<open>Infinity\<close> or \<^verbatim>\<open>NaN\<close>.
\<close>

type_synonym pystr = "nat list"

abbreviation str :: "string \<Rightarrow> pystr" where
  "str s \<equiv> map of_char s"

datatype nonfinite = PosInf | NegInf | NaN

datatype json =
    JNull
  | JBool bool
  | JNum rat
  | JNonFinite nonfinite
  | JStr pystr
  | JList "json list"
  | JObj "(pystr \<times> json) list"

type_synonym pydict = "(pystr \<times> json) list"

text \<open>Exceptions that escape a function.\<close>

datatype error =
  TypeError | AttributeError | KeyError | IndexError | ValueError | UnicodeEncodeError

text \<open>Python's truth value of an object, as \<^verbatim>\<open>or\<close>, \<^verbatim>\<open>not\<close> and \<^verbatim>\<open>bool()\<close> use it.\<close>

fun truthy :: "json \<Rightarrow> bool" where
  "truthy JNull = False"
| "truthy (JBool b) = b"
| "truthy (JNum r) = (r \<noteq> 0)"
| "truthy (JNonFinite x) = True"
| "truthy (JStr s) = (s \<noteq> [])"
| "truthy (JList xs) = (xs \<noteq> [])"
| "truthy (JObj d) = (d \<noteq> [])"

definition py_or :: "json \<Rightarrow> json \<Rightarrow> json" where
  "py_or a b = (if truthy a then a else b)"

text \<open>\<^verbatim>\<open>d.get(k, default)\<close>; \<^verbatim>\<open>d.get(k)\<close> is \<open>dict_get d k JNull\<close>.\<close>

definition dict_get :: "pydict \<Rightarrow> pystr \<Rightarrow> json \<Rightarrow> json" where
  "dict_get d k dflt = (case map_of d k of None \<Rightarrow> dflt | Some v \<Rightarrow> v)"

text \<open>
  \<^verbatim>\<open>d[k] = v\<close> on a copy of \<open>d\<close>: an existing key keeps its place, a new key goes to
  the end.
\<close>

fun dict_set :: "(pystr \<times> 'v) list \<Rightarrow> pystr \<Rightarrow> 'v \<Rightarrow> (pystr \<times> 'v) list" where
  "dict_set [] k v = [(k, v)]"
| "dict_set ((k', v') # d) k v = (if k' = k then (k, v) # d else (k', v') # dict_set d k v)"

text \<open>\<^verbatim>\<open>d.setdefault(k, v)\<close>: only a missing key is set.\<close>

definition setdefault :: "pydict \<Rightarrow> pystr \<Rightarrow> json \<Rightarrow> pydict" where
  "setdefault d k v = (case map_of d k of None \<Rightarrow> d @ [(k, v)] | Some _ \<Rightarrow> d)"

text \<open>\<^verbatim>\<open>s.startswith(p)\<close> and \<^verbatim>\<open>p in s\<close> on strings.\<close>

definition startswith :: "pystr \<Rightarrow> pystr \<Rightarrow> bool" where
  "startswith s p = (take (length p) s = p)"

fun contains :: "pystr \<Rightarrow> pystr \<Rightarrow> bool" where
  "contains p [] = (p = [])"
| "contains p (c # cs) = (startswith (c # cs) p \<or> contains p cs)"

text \<open>
  The code points for which \<^verbatim>\<open>str.isspace\<close> holds; \<^verbatim>\<open>s.strip()\<close> removes them
  from both ends.
\<close>

definition py_isspace :: "nat \<Rightarrow> bool" where
  "py_isspace c =
     ((9 \<le> c \<and> c \<le> 13) \<or> (28 \<le> c \<and> c \<le> 32) \<or> c = 133 \<or> c = 160 \<or> c = 5760
      \<or> (8192 \<le> c \<and> c \<le> 8202) \<or> c = 8232 \<or> c = 8233 \<or> c = 8239 \<or> c = 8287
      \<or> c = 12288)"

definition strip :: "pystr \<Rightarrow> pystr" where
  "strip s = rev (dropWhile py_isspace (rev (dropWhile py_isspace s)))"


section \<open>Image normalizer\<close>

definition looks_data_url :: "json \<Rightarrow> bool" where
  "looks_data_url x =
     (case x of
        JStr s \<Rightarrow> startswith s (str ''data:'') \<and> contains (str '';base64,'') s
      | _ \<Rightarrow> False)"

definition is_http_url :: "json \<Rightarrow> bool" where
  "is_http_url x =
     (case x of
        JStr s \<Rightarrow> startswith s (str ''http://'') \<or> startswith s (str ''https://'')
      | _ \<Rightarrow> False)"

definition to_data_url_from_base64 :: "pystr \<Rightarrow> pystr \<Rightarrow> pystr" where
  "to_data_url_from_base64 raw_b64 mime = str ''data:'' @ mime @ str '';base64,'' @ raw_b64"

abbreviation default_mime :: pystr where
  "default_mime \<equiv> str ''image/png''"

text \<open>
  What \<^verbatim>\<open>for x in v\<close> iterates over: the elements of a list, the one-character
  strings of a string, the keys of a dict; anything else is not iterable.
\<close>

definition iter_items :: "json \<Rightarrow> error + json list" where
  "iter_items v =
     (case v of
        JList xs \<Rightarrow> Inr xs
      | JStr s \<Rightarrow> Inr (map (\<lambda>c. JStr [c]) s)
      | JObj d \<Rightarrow> Inr (map (\<lambda>kv. JStr (fst kv)) d)
      | _ \<Rightarrow> Inl TypeError)"

text \<open>The first loop of \<^verbatim>\<open>prepare_image_urls\<close>; \<open>urls\<close> is the list built so far.\<close>

fun collect_urls :: "json list \<Rightarrow> pystr list \<Rightarrow> pystr list" where
  "collect_urls [] urls = urls"
| "collect_urls (x # xs) urls =
     (case x of
        JObj d \<Rightarrow>
          (let data = dict_get d (str ''data'') (JStr [])
           in case data of
                JStr s \<Rightarrow>
                  if s \<noteq> [] then
                    collect_urls xs
                      (urls @ [if looks_data_url data then s
                               else to_data_url_from_base64 s default_mime])
                  else collect_urls xs urls
              | _ \<Rightarrow> collect_urls xs urls)
      | JStr s \<Rightarrow>
          if looks_data_url x \<or> is_http_url x then collect_urls xs (urls @ [s])
          else collect_urls xs (urls @ [to_data_url_from_base64 s default_mime])
      | _ \<Rightarrow> collect_urls xs urls)"

text \<open>The second loop: de-duplicate while preserving order.\<close>

fun dedup :: "pystr list \<Rightarrow> pystr set \<Rightarrow> pystr list \<Rightarrow> pystr list" where
  "dedup [] seen uniq = uniq"
| "dedup (u # us) seen uniq =
     (if u \<notin> seen then dedup us (insert u seen) (uniq @ [u]) else dedup us seen uniq)"

definition prepare_image_urls :: "json \<Rightarrow> error + pystr list" where
  "prepare_image_urls images_in =
     (case iter_items (py_or images_in (JList [])) of
        Inl e \<Rightarrow> Inl e
      | Inr xs \<Rightarrow> Inr (dedup (collect_urls xs []) {} []))"

text \<open>
  The list of a descriptor list's candidates is what the first loop builds from the
  empty list. The entries of a list at their first occurrence, said with positions: keep
  position \<open>i\<close> exactly when its entry is at no earlier position.
\<close>

definition candidates :: "json list \<Rightarrow> pystr list" where
  "candidates xs = collect_urls xs []"

definition first_occurrences :: "'a list \<Rightarrow> 'a list" where
  "first_occurrences cs = map (\<lambda>i. cs ! i) (filter (\<lambda>i. cs ! i \<notin> set (take i cs)) [0..<length cs])"


section \<open>Message composer\<close>

text \<open>
  \<^verbatim>\<open>len(v)\<close>, \<^verbatim>\<open>v[i]\<close> for an index \<open>i\<close>, \<^verbatim>\<open>list(v)\<close> and \<^verbatim>\<open>v.get(k)\<close> on an
  arbitrary value: \<^verbatim>\<open>messages\<close> is whatever the request body holds. A dict decoded
  from JSON has string keys only, so an integer subscript finds no key.
\<close>

definition py_len :: "json \<Rightarrow> error + nat" where
  "py_len v =
     (case v of
        JList xs \<Rightarrow> Inr (length xs)
      | JStr s \<Rightarrow> Inr (length s)
      | JObj d \<Rightarrow> Inr (length d)
      | _ \<Rightarrow> Inl TypeError)"

definition py_index :: "json \<Rightarrow> nat \<Rightarrow> error + json" where
  "py_index v i =
     (case v of
        JList xs \<Rightarrow> if i < length xs then Inr (xs ! i) else Inl IndexError
      | JStr s \<Rightarrow> if i < length s then Inr (JStr [s ! i]) else Inl IndexError
      | JObj d \<Rightarrow> Inl KeyError
      | _ \<Rightarrow> Inl TypeError)"

definition py_list :: "json \<Rightarrow> error + json list" where
  "py_list v = iter_items v"

definition method_get :: "json \<Rightarrow> pystr \<Rightarrow> error + json" where
  "method_get v k = (case v of JObj d \<Rightarrow> Inr (dict_get d k JNull) | _ \<Rightarrow> Inl AttributeError)"

text \<open>
  The scan \<^verbatim>\<open>for i in range(len(messages) - 1, -1, -1)\<close>: \<open>find_last_user messages n\<close>
  examines the indices \<open>n - 1\<close> down to \<open>0\<close> and stops at the first message whose role
  is \<^verbatim>\<open>user\<close>.
\<close>

fun find_last_user :: "json \<Rightarrow> nat \<Rightarrow> error + nat option" where
  "find_last_user messages 0 = Inr None"
| "find_last_user messages (Suc i) =
     (case py_index messages i of
        Inl e \<Rightarrow> Inl e
      | Inr m \<Rightarrow>
          (case method_get m (str ''role'') of
             Inl e \<Rightarrow> Inl e
           | Inr r \<Rightarrow> if r = JStr (str ''user'') then Inr (Some i) else find_last_user messages i))"

definition img_block :: "pystr \<Rightarrow> json" where
  "img_block url =
     JObj [(str ''type'', JStr (str ''image_url'')),
           (str ''image_url'', JObj [(str ''url'', JStr url)])]"

definition text_block :: "pystr \<Rightarrow> json" where
  "text_block content = JObj [(str ''type'', JStr (str ''text'')), (str ''text'', JStr content)]"

definition rewrite_content :: "json \<Rightarrow> json list \<Rightarrow> json" where
  "rewrite_content content img_blocks =
     (case content of
        JStr s \<Rightarrow> JList ((if strip s \<noteq> [] then [text_block s] else []) @ img_blocks)
      | JList blocks \<Rightarrow> JList (blocks @ img_blocks)
      | _ \<Rightarrow> JList img_blocks)"

definition ensure_multimodal_message :: "json \<Rightarrow> pystr list \<Rightarrow> error + json" where
  "ensure_multimodal_message messages image_urls =
     (if image_urls = [] then Inr messages
      else
        case py_len messages of
          Inl e \<Rightarrow> Inl e
        | Inr n \<Rightarrow>
        case find_last_user messages n of
          Inl e \<Rightarrow> Inl e
        | Inr user_idx \<Rightarrow>
        let img_blocks = map img_block image_urls in
        case user_idx of
          None \<Rightarrow>
            (case py_list messages of
               Inl e \<Rightarrow> Inl e
             | Inr ms \<Rightarrow>
                 Inr (JList (ms @ [JObj [(str ''role'', JStr (str ''user'')),
                                         (str ''content'', JList img_blocks)]])))
        | Some idx \<Rightarrow>
            (case py_index messages idx of
               Inl e \<Rightarrow> Inl e
             | Inr (JObj user_msg) \<Rightarrow>
                 (let content = dict_get user_msg (str ''content'') (JStr []);
                      user_msg' = dict_set user_msg (str ''content'')
                                    (rewrite_content content img_blocks)
                  in case py_list messages of
                       Inl e \<Rightarrow> Inl e
                     | Inr ms \<Rightarrow> Inr (JList (ms[idx := JObj user_msg'])))
             | Inr _ \<Rightarrow> Inl TypeError))"

text \<open>A message that the scan passes over: a dict whose role is not \<^verbatim>\<open>user\<close>.\<close>

definition other_role :: "json \<Rightarrow> bool" where
  "other_role m =
     (case m of JObj d \<Rightarrow> dict_get d (str ''role'') JNull \<noteq> JStr (str ''user'') | _ \<Rightarrow> False)"


section \<open>Upstream relay\<close>

text \<open>
  What the one POST to the upstream comes back with. Either no response arrives and
  \<^verbatim>\<open>requests\<close> raises (connection refused, timeout, ...), with the exception's text; or
  a response arrives, of which the handler reads the status code, the
  \<^verbatim>\<open>Content-Type\<close> header, the body decoded by \<^verbatim>\<open>r.json()\<close> (or the text of the
  decoding error) and, when streaming, the chunks \<^verbatim>\<open>r.iter_content\<close> hands over.
  \<open>http_error_text\<close> is the text of the \<^verbatim>\<open>HTTPError\<close> that \<^verbatim>\<open>raise_for_status\<close>
  builds for this response.
\<close>

record upstream_response =
  status_code :: nat
  content_type :: "pystr option"
  json_body :: "pystr + json"
  chunks :: "string list"
  http_error_text :: pystr

datatype upstream_outcome =
    Transport_failure pystr
  | Responded upstream_response

text \<open>
  What the handler returns to the framework, once built: status code, then content.
\<close>

datatype response =
    JSONResponse nat json
  | StreamingResponse nat pystr "string list"

text \<open>
  The framework's \<^verbatim>\<open>JSONResponse(...)\<close> renders its content when it is constructed:
  \<^verbatim>\<open>json.dumps(content, ensure_ascii=False, allow_nan=False, ...).encode("utf-8")\<close>.
  \<^verbatim>\<open>json.dumps\<close> raises \<^verbatim>\<open>ValueError\<close> when the content holds a non-finite float; the
  encoding raises \<^verbatim>\<open>UnicodeEncodeError\<close> when a string or a key of the content holds a
  surrogate code point. \<open>json_response\<close> is the constructor call: the response, or the
  exception raised where the call stands. A streaming response renders nothing when it
  is constructed.
\<close>

definition surrogate :: "nat \<Rightarrow> bool" where
  "surrogate c = (55296 \<le> c \<and> c \<le> 57343)"

fun has_nonfinite :: "json \<Rightarrow> bool" where
  "has_nonfinite (JNonFinite x) = True"
| "has_nonfinite (JList xs) = list_ex has_nonfinite xs"
| "has_nonfinite (JObj d) = list_ex (\<lambda>kv. has_nonfinite (snd kv)) d"
| "has_nonfinite _ = False"

fun has_surrogate :: "json \<Rightarrow> bool" where
  "has_surrogate (JStr s) = list_ex surrogate s"
| "has_surrogate (JList xs) = list_ex has_surrogate xs"
| "has_surrogate (JObj d) =
     list_ex (\<lambda>kv. list_ex surrogate (fst kv) \<or> has_surrogate (snd kv)) d"
| "has_surrogate _ = False"

definition render :: "json \<Rightarrow> error option" where
  "render content =
     (if has_nonfinite content then Some ValueError
      else if has_surrogate content then Some UnicodeEncodeError
      else None)"

definition json_response :: "nat \<Rightarrow> json \<Rightarrow> error + response" where
  "json_response status content =
     (case render content of
        Some e \<Rightarrow> Inl e
      | None \<Rightarrow> Inr (JSONResponse status content))"

text \<open>\<^verbatim>\<open>r.raise_for_status()\<close> of \<^verbatim>\<open>requests\<close> raises for the 4xx and 5xx codes.\<close>

definition raise_for_status :: "upstream_response \<Rightarrow> bool" where
  "raise_for_status r = (400 \<le> status_code r \<and> status_code r < 600)"

definition error_body :: "pystr \<Rightarrow> json" where
  "error_body msg = JObj [(str ''error'', JObj [(str ''message'', JStr msg)])]"

text \<open>The generator \<^verbatim>\<open>gen\<close>: every chunk that is not empty is yielded, as it is.\<close>

fun gen :: "string list \<Rightarrow> string list" where
  "gen [] = []"
| "gen (chunk # rest) = (if chunk \<noteq> [] then chunk # gen rest else gen rest)"

text \<open>Line 128 of the handler: the descriptors it takes from the body.\<close>

definition images_in :: "pydict \<Rightarrow> json" where
  "images_in body =
     py_or (py_or (dict_get body (str ''images'') JNull) (dict_get body (str ''allImages'') JNull))
       (JList [])"

text \<open>
  The handler up to the POST: the payload it sends. An exception here is outside the
  handler's \<^verbatim>\<open>try\<close> and escapes it.
\<close>

definition upstream_payload :: "pydict \<Rightarrow> error + pydict" where
  "upstream_payload body =
     (let messages = py_or (dict_get body (str ''messages'') JNull) (JList [])
      in case prepare_image_urls (images_in body) of
           Inl e \<Rightarrow> Inl e
         | Inr image_urls \<Rightarrow>
             (case ensure_multimodal_message messages image_urls of
                Inl e \<Rightarrow> Inl e
              | Inr messages_mm \<Rightarrow> Inr (dict_set body (str ''messages'') messages_mm)))"

text \<open>Lines 155 to 157: the \<^verbatim>\<open>id\<close> and \<^verbatim>\<open>model\<close> fields of a decoded mapping.\<close>

definition fill_fields :: "pystr \<Rightarrow> pydict \<Rightarrow> json \<Rightarrow> json" where
  "fill_fields token body j =
     (case j of
        JObj d \<Rightarrow>
          JObj (setdefault
                 (setdefault d (str ''id'') (JStr (str ''chatcmpl-'' @ token)))
                 (str ''model'')
                 (py_or (dict_get body (str ''model'') JNull) (JStr (str ''local''))))
      | _ \<Rightarrow> j)"

text \<open>
  The \<^verbatim>\<open>try\<close> block and its handlers, given what the POST came back with.
  \<open>Transport_failure\<close> stands for every exception of the POST itself, also when
  \<^verbatim>\<open>requests\<close> cannot serialise the payload. \<open>token\<close> is the random
  \<^verbatim>\<open>uuid.uuid4().hex[:24]\<close>; \<open>render_error\<close> is the text of the exception that
  rendering the buffered body raises, when it does. A response built without a status
  code has the framework's default, 200. \<^verbatim>\<open>raise_for_status\<close> attaches the response to
  the \<^verbatim>\<open>HTTPError\<close> it raises, so the handler's fallback for a missing response is never
  taken. The chunks are those handed over before the upstream's stream ends.

  An exception raised inside the \<^verbatim>\<open>try\<close> block that is no \<^verbatim>\<open>HTTPError\<close>, the failure
  to render the buffered body among them, is caught by \<^verbatim>\<open>except Exception\<close>. An
  exception raised inside one of the two handlers is caught by nothing and escapes the
  function.
\<close>

definition relay :: "upstream_outcome \<Rightarrow> pystr \<Rightarrow> pystr \<Rightarrow> pydict \<Rightarrow> error + response" where
  "relay outcome token render_error body =
     (let want_stream = truthy (dict_get body (str ''stream'') (JBool False))
      in case outcome of
           Transport_failure msg \<Rightarrow> json_response 502 (error_body msg)
         | Responded r \<Rightarrow>
             if raise_for_status r then
               json_response (status_code r)
                 (case json_body r of
                    Inr err \<Rightarrow> err
                  | Inl _ \<Rightarrow> error_body (http_error_text r))
             else if want_stream then
               (let media_type =
                      (case content_type r of None \<Rightarrow> str ''text/event-stream'' | Some t \<Rightarrow> t)
                in Inr (StreamingResponse 200
                     (if media_type \<noteq> [] then media_type else str ''text/event-stream'')
                     (gen (chunks r))))
             else
               (case json_body r of
                  Inl msg \<Rightarrow> json_response 502 (error_body msg)
                | Inr j \<Rightarrow>
                    (case json_response 200 (fill_fields token body j) of
                       Inr resp \<Rightarrow> Inr resp
                     | Inl _ \<Rightarrow> json_response 502 (error_body render_error))))"

definition chat_completions ::
  "upstream_outcome \<Rightarrow> pystr \<Rightarrow> pystr \<Rightarrow> pydict \<Rightarrow> error + response" where
  "chat_completions outcome token render_error body =
     (case upstream_payload body of
        Inl e \<Rightarrow> Inl e
      | Inr _ \<Rightarrow> relay outcome token render_error body)"


text \<open>The \<^verbatim>\<open>messages\<close> field of the payload sent upstream.\<close>

definition sent_messages :: "pydict \<Rightarrow> error + json" where
  "sent_messages body =
     (case upstream_payload body of
        Inl e \<Rightarrow> Inl e
      | Inr payload \<Rightarrow> Inr (dict_get payload (str ''messages'') JNull))"


section \<open>Message composer over a store\<close>

text \<open>
  Whether the composer mutates its input is a question about objects, not values, so
  \<^verbatim>\<open>ensure_multimodal_message\<close> is modelled a second time over an explicit store.
  Lists and dicts are objects of the store, held by reference; strings, numbers,
  booleans and \<^verbatim>\<open>None\<close> are immutable and held inline. The store is the list of its
  objects, an address is a position in it, and a new object goes to the end.
\<close>

type_synonym addr = nat

datatype pval = VNone | VBool bool | VNum rat | VNonFinite nonfinite | VStr pystr | VRef addr

datatype pobj = OList "pval list" | ODict "(pystr \<times> pval) list"

type_synonym heap = "pobj list"

text \<open>Creating an object, and reading through a reference.\<close>

definition alloc :: "heap \<Rightarrow> pobj \<Rightarrow> addr \<times> heap" where
  "alloc h obj = (length h, h @ [obj])"

definition deref :: "heap \<Rightarrow> pval \<Rightarrow> pobj option" where
  "deref h v = (case v of VRef a \<Rightarrow> if a < length h then Some (h ! a) else None | _ \<Rightarrow> None)"

text \<open>
  The mutating operations: \<^verbatim>\<open>xs.append(v)\<close>, \<^verbatim>\<open>xs.extend(ys)\<close>, \<^verbatim>\<open>xs[i] = v\<close> and
  \<^verbatim>\<open>d[k] = v\<close> change the object at the address and no other.
\<close>

definition list_append :: "heap \<Rightarrow> addr \<Rightarrow> pval \<Rightarrow> heap" where
  "list_append h a v = (case h ! a of OList xs \<Rightarrow> h[a := OList (xs @ [v])] | _ \<Rightarrow> h)"

definition list_extend :: "heap \<Rightarrow> addr \<Rightarrow> addr \<Rightarrow> heap" where
  "list_extend h a b =
     (case (h ! a, h ! b) of (OList xs, OList ys) \<Rightarrow> h[a := OList (xs @ ys)] | _ \<Rightarrow> h)"

definition list_store :: "heap \<Rightarrow> addr \<Rightarrow> nat \<Rightarrow> pval \<Rightarrow> heap" where
  "list_store h a i v = (case h ! a of OList xs \<Rightarrow> h[a := OList (xs[i := v])] | _ \<Rightarrow> h)"

definition dict_store :: "heap \<Rightarrow> addr \<Rightarrow> pystr \<Rightarrow> pval \<Rightarrow> heap" where
  "dict_store h a k v = (case h ! a of ODict d \<Rightarrow> h[a := ODict (dict_set d k v)] | _ \<Rightarrow> h)"

text \<open>
  \<^verbatim>\<open>len(v)\<close>, \<^verbatim>\<open>v[i]\<close>, \<^verbatim>\<open>list(v)\<close> and \<^verbatim>\<open>v.get(k)\<close> as in the value model. A
  reference outside the store does not arise in a Python state; it is read as a value
  that is no container.
\<close>

definition len_h :: "heap \<Rightarrow> pval \<Rightarrow> error + nat" where
  "len_h h v =
     (case v of
        VStr s \<Rightarrow> Inr (length s)
      | _ \<Rightarrow>
          (case deref h v of
             Some (OList xs) \<Rightarrow> Inr (length xs)
           | Some (ODict d) \<Rightarrow> Inr (length d)
           | None \<Rightarrow> Inl TypeError))"

definition index_h :: "heap \<Rightarrow> pval \<Rightarrow> nat \<Rightarrow> error + pval" where
  "index_h h v i =
     (case v of
        VStr s \<Rightarrow> if i < length s then Inr (VStr [s ! i]) else Inl IndexError
      | _ \<Rightarrow>
          (case deref h v of
             Some (OList xs) \<Rightarrow> if i < length xs then Inr (xs ! i) else Inl IndexError
           | Some (ODict d) \<Rightarrow> Inl KeyError
           | None \<Rightarrow> Inl TypeError))"

definition items_h :: "heap \<Rightarrow> pval \<Rightarrow> error + pval list" where
  "items_h h v =
     (case v of
        VStr s \<Rightarrow> Inr (map (\<lambda>c. VStr [c]) s)
      | _ \<Rightarrow>
          (case deref h v of
             Some (OList xs) \<Rightarrow> Inr xs
           | Some (ODict d) \<Rightarrow> Inr (map (\<lambda>kv. VStr (fst kv)) d)
           | None \<Rightarrow> Inl TypeError))"

definition method_get_h :: "heap \<Rightarrow> pval \<Rightarrow> pystr \<Rightarrow> error + pval" where
  "method_get_h h v k =
     (case deref h v of
        Some (ODict d) \<Rightarrow> Inr (case map_of d k of None \<Rightarrow> VNone | Some x \<Rightarrow> x)
      | _ \<Rightarrow> Inl AttributeError)"

fun find_last_user_h :: "heap \<Rightarrow> pval \<Rightarrow> nat \<Rightarrow> error + nat option" where
  "find_last_user_h h messages 0 = Inr None"
| "find_last_user_h h messages (Suc i) =
     (case index_h h messages i of
        Inl e \<Rightarrow> Inl e
      | Inr m \<Rightarrow>
          (case method_get_h h m (str ''role'') of
             Inl e \<Rightarrow> Inl e
           | Inr r \<Rightarrow>
               if r = VStr (str ''user'') then Inr (Some i) else find_last_user_h h messages i))"

text \<open>The list comprehension \<^verbatim>\<open>img_blocks\<close>: two new dicts for every URL.\<close>

fun alloc_img_blocks :: "heap \<Rightarrow> pystr list \<Rightarrow> pval list \<times> heap" where
  "alloc_img_blocks h [] = ([], h)"
| "alloc_img_blocks h (url # urls) =
     (let (inner, h1) = alloc h (ODict [(str ''url'', VStr url)]);
          (block, h2) = alloc h1 (ODict [(str ''type'', VStr (str ''image_url'')),
                                         (str ''image_url'', VRef inner)]);
          (rest, h3) = alloc_img_blocks h2 urls
      in (VRef block # rest, h3))"

text \<open>
  Lines 83 to 95: the new content of the copied user message \<open>user_msg\<close>, whose old
  content is \<open>content\<close>; \<open>img_blocks\<close> is the address of the list of image blocks.
\<close>

definition set_content_h :: "heap \<Rightarrow> addr \<Rightarrow> pval \<Rightarrow> addr \<Rightarrow> heap" where
  "set_content_h h user_msg content img_blocks =
     (case content of
        VStr s \<Rightarrow>
          (let (content_blocks, h1) = alloc h (OList []);
               h2 = (if strip s \<noteq> [] then
                       (let (t, h') = alloc h1 (ODict [(str ''type'', VStr (str ''text'')),
                                                       (str ''text'', content)])
                        in list_append h' content_blocks (VRef t))
                     else h1);
               h3 = list_extend h2 content_blocks img_blocks
           in dict_store h3 user_msg (str ''content'') (VRef content_blocks))
      | _ \<Rightarrow>
          (case (deref h content, deref h (VRef img_blocks)) of
             (Some (OList blocks), Some (OList imgs)) \<Rightarrow>
               (let (joined, h1) = alloc h (OList (blocks @ imgs))
                in dict_store h1 user_msg (str ''content'') (VRef joined))
           | _ \<Rightarrow> dict_store h user_msg (str ''content'') (VRef img_blocks)))"

text \<open>
  The function returns the result with the store it leaves. Every exception arises in
  \<^verbatim>\<open>len\<close> or in the scan, before any object is created or changed.
\<close>

definition ensure_multimodal_message_h :: "heap \<Rightarrow> pval \<Rightarrow> pystr list \<Rightarrow> error + pval \<times> heap" where
  "ensure_multimodal_message_h h messages image_urls =
     (if image_urls = [] then Inr (messages, h)
      else
        case len_h h messages of
          Inl e \<Rightarrow> Inl e
        | Inr n \<Rightarrow>
        case find_last_user_h h messages n of
          Inl e \<Rightarrow> Inl e
        | Inr user_idx \<Rightarrow>
        let (blocks, h1) = alloc_img_blocks h image_urls;
            (img_blocks, h2) = alloc h1 (OList blocks)
        in case user_idx of
             None \<Rightarrow>
               (case items_h h2 messages of
                  Inl e \<Rightarrow> Inl e
                | Inr ms \<Rightarrow>
                    (let (new_msg, h3) = alloc h2 (ODict [(str ''role'', VStr (str ''user'')),
                                                          (str ''content'', VRef img_blocks)]);
                         (copy, h4) = alloc h3 (OList ms);
                         (single, h5) = alloc h4 (OList [VRef new_msg]);
                         (result, h6) = alloc h5 (OList (ms @ [VRef new_msg]))
                     in Inr (VRef result, h6)))
           | Some idx \<Rightarrow>
               (case index_h h2 messages idx of
                  Inl e \<Rightarrow> Inl e
                | Inr m \<Rightarrow>
                    (case deref h2 m of
                       Some (ODict d) \<Rightarrow>
                         (let (user_msg, h3) = alloc h2 (ODict d);
                              content = (case map_of d (str ''content'') of
                                           None \<Rightarrow> VStr [] | Some c \<Rightarrow> c);
                              h4 = set_content_h h3 user_msg content img_blocks
                          in case items_h h4 messages of
                               Inl e \<Rightarrow> Inl e
                             | Inr ms \<Rightarrow>
                                 (let (copy, h5) = alloc h4 (OList ms)
                                  in Inr (VRef copy, list_store h5 copy idx (VRef user_msg))))
                     | _ \<Rightarrow> Inl TypeError)))"


text \<open>
  A message of a well-formed message list is a reference to a dict. \<open>unchanged h h'\<close>:
  every object of \<open>h\<close> is in \<open>h'\<close> at its address as it was.
\<close>

definition is_dict_ref :: "heap \<Rightarrow> pval \<Rightarrow> bool" where
  "is_dict_ref h m = (case deref h m of Some (ODict d) \<Rightarrow> True | _ \<Rightarrow> False)"

definition unchanged :: "heap \<Rightarrow> heap \<Rightarrow> bool" where
  "unchanged h0 h = (take (length h0) h = h0)"


section \<open>Facts about dicts\<close>

lemma map_of_dict_set: "map_of (dict_set d k v) k' = (if k' = k then Some v else map_of d k')"
  by (induction d) auto

lemma dict_get_dict_set:
  "dict_get (dict_set d k v) k' dflt = (if k' = k then v else dict_get d k' dflt)"
  by (simp add: dict_get_def map_of_dict_set)


section \<open>Properties of the image normalizer\<close>

lemma dedup_acc:
  "dedup us seen uniq =
     uniq @ map (\<lambda>i. us ! i) (filter (\<lambda>i. us ! i \<notin> seen \<union> set (take i us)) [0..<length us])"
proof (induction us arbitrary: seen uniq)
  case Nil
  show ?case by simp
next
  case (Cons u us)
  have shift: "[0..<length (u # us)] = 0 # map Suc [0..<length us]"
    by (simp add: upt_conv_Cons map_Suc_upt del: upt_Suc)
  have same: "filter (\<lambda>i. us ! i \<notin> seen \<and> us ! i \<noteq> u \<and> P i) is
      = filter (\<lambda>i. us ! i \<notin> seen \<and> P i) is" if "u \<in> seen" for P and "is" :: "nat list"
    using that by (intro filter_cong) auto
  have swap: "filter (\<lambda>i. us ! i \<noteq> u \<and> us ! i \<notin> seen \<and> P i) is
      = filter (\<lambda>i. us ! i \<notin> seen \<and> us ! i \<noteq> u \<and> P i) is" for P and "is" :: "nat list"
    by (intro filter_cong) auto
  show ?case
    by (simp only: shift) (simp add: Cons.IH filter_map comp_def same swap)
qed

lemma dedup_first_occurrences: "dedup us {} [] = first_occurrences us"
  by (simp add: dedup_acc first_occurrences_def)

lemma first_occurrences_distinct: "distinct (first_occurrences cs)"
proof -
  let ?keep = "filter (\<lambda>i. cs ! i \<notin> set (take i cs)) [0..<length cs]"
  have "inj_on (\<lambda>i. cs ! i) (set ?keep)"
  proof (rule inj_onI)
    fix i j
    assume i: "i \<in> set ?keep" and j: "j \<in> set ?keep" and eq: "cs ! i = cs ! j"
    show "i = j"
    proof (rule ccontr)
      assume "i \<noteq> j"
      then consider "i < j" | "j < i" by linarith
      then show False
      proof cases
        case 1
        with i have "cs ! i \<in> set (take j cs)"
          by (auto simp: in_set_conv_nth intro!: exI [of _ i])
        with j eq show False by simp
      next
        case 2
        with j have "cs ! j \<in> set (take i cs)"
          by (auto simp: in_set_conv_nth intro!: exI [of _ j])
        with i eq show False by simp
      qed
    qed
  qed
  then show ?thesis
    by (simp add: first_occurrences_def distinct_map)
qed

lemma first_occurrences_set: "set (first_occurrences cs) = set cs"
proof
  show "set (first_occurrences cs) \<subseteq> set cs"
    by (auto simp: first_occurrences_def)
  show "set cs \<subseteq> set (first_occurrences cs)"
  proof
    fix x
    assume "x \<in> set cs"
    then have ex: "\<exists>i. i < length cs \<and> cs ! i = x"
      by (simp add: in_set_conv_nth)
    define i where "i = (LEAST i. i < length cs \<and> cs ! i = x)"
    have i: "i < length cs" "cs ! i = x"
      using LeastI_ex [OF ex] by (simp_all add: i_def)
    have "x \<notin> set (take i cs)"
    proof
      assume "x \<in> set (take i cs)"
      then obtain j where "j < i" "cs ! j = x"
        by (auto simp: in_set_conv_nth)
      with i have "j < length cs \<and> cs ! j = x" by simp
      then have "i \<le> j" unfolding i_def by (rule Least_le)
      with \<open>j < i\<close> show False by simp
    qed
    with i show "x \<in> set (first_occurrences cs)"
      by (auto simp: first_occurrences_def image_iff intro!: bexI [of _ i])
  qed
qed

text \<open>
  C2. For every list of image descriptors the normalizer returns (it does not raise),
  its result has no repeated entry, holds exactly the candidates produced from the
  input, and lists them in the order of their first occurrence among the candidates.
\<close>

theorem prepare_image_urls_dedup:
  "prepare_image_urls (JList xs) = Inr (first_occurrences (candidates xs))
   \<and> distinct (first_occurrences (candidates xs))
   \<and> set (first_occurrences (candidates xs)) = set (candidates xs)"
  by (cases xs)
    (simp_all add: prepare_image_urls_def py_or_def iter_items_def candidates_def
      dedup_first_occurrences first_occurrences_distinct first_occurrences_set)

lemma collect_urls_acc: "collect_urls xs (us @ vs) = us @ collect_urls xs vs"
proof (induction xs arbitrary: vs)
  case Nil
  show ?case by simp
next
  case (Cons x xs)
  have step: "collect_urls xs (us @ vs @ ws) = us @ collect_urls xs (vs @ ws)" for ws
    using Cons.IH [of "vs @ ws"] by simp
  show ?case
    by (simp add: step Cons.IH Let_def split: json.splits)
qed

lemma collect_urls_append: "collect_urls (xs @ ys) urls = collect_urls ys (collect_urls xs urls)"
  by (induction xs arbitrary: urls) (simp_all add: Let_def split: json.splits)

text \<open>
  C3. A plain-string descriptor, wherever it stands in the input, gives one candidate
  at its place: the string as it stands when it is already a data URL or an http(s)
  URL, and the normalizer then returns it unchanged; any other string is wrapped as \<^verbatim>\<open>data:image/png;base64,<payload>\<close>; the string \<^verbatim>\<open>QUJD\<close> yields
  \<^verbatim>\<open>data:image/png;base64,QUJD\<close>.
\<close>

theorem string_descriptor_normalized:
  "candidates (xs @ JStr s # ys) =
     candidates xs
     @ [if looks_data_url (JStr s) \<or> is_http_url (JStr s) then s
        else str ''data:image/png;base64,'' @ s]
     @ candidates ys
   \<and> prepare_image_urls (JList [JStr s]) =
       Inr [if looks_data_url (JStr s) \<or> is_http_url (JStr s) then s
            else str ''data:image/png;base64,'' @ s]
   \<and> prepare_image_urls (JList [JStr (str ''QUJD'')]) = Inr [str ''data:image/png;base64,QUJD'']"
proof -
  have "candidates (xs @ JStr s # ys) = collect_urls (JStr s # ys) (candidates xs @ [])"
    by (simp add: candidates_def collect_urls_append)
  also have "\<dots> = candidates xs
      @ [if looks_data_url (JStr s) \<or> is_http_url (JStr s) then s
         else str ''data:image/png;base64,'' @ s]
      @ candidates ys"
    using collect_urls_acc [of ys "candidates xs" "[s]"]
      collect_urls_acc [of ys "candidates xs" "[to_data_url_from_base64 s default_mime]"]
      collect_urls_acc [of ys "[s]" "[]"]
      collect_urls_acc [of ys "[to_data_url_from_base64 s default_mime]" "[]"]
    by (simp add: candidates_def to_data_url_from_base64_def)
  finally show ?thesis
    by (simp add: candidates_def prepare_image_urls_def py_or_def iter_items_def
        to_data_url_from_base64_def looks_data_url_def is_http_url_def startswith_def)
qed


section \<open>Properties of the message composer\<close>

lemma find_last_user_none:
  "n \<le> length ms \<Longrightarrow> list_all other_role (take n ms) \<Longrightarrow> find_last_user (JList ms) n = Inr None"
proof (induction n)
  case 0
  show ?case by simp
next
  case (Suc n)
  from Suc.prems have n: "n < length ms" and rest: "list_all other_role (take n ms)"
    and here: "other_role (ms ! n)"
    by (simp_all add: take_Suc_conv_app_nth)
  from Suc.IH n rest have IH: "find_last_user (JList ms) n = Inr None" by simp
  from here obtain d where d: "ms ! n = JObj d"
    "dict_get d (str ''role'') JNull \<noteq> JStr (str ''user'')"
    by (auto simp: other_role_def split: json.splits)
  show ?case using n d IH
    by (simp add: py_index_def method_get_def)
qed



text \<open>
  C4. Composing any message sequence (indeed any value of the \<^verbatim>\<open>messages\<close> field) with
  an empty image-URL list returns that sequence itself.
\<close>

theorem ensure_multimodal_message_no_images:
  "ensure_multimodal_message messages [] = Inr messages"
  by (simp add: ensure_multimodal_message_def)

text \<open>
  C5. For a message sequence with no message of role \<^verbatim>\<open>user\<close> and a non-empty list
  of image URLs, the composer returns the input sequence followed by exactly one new
  message, whose role is \<^verbatim>\<open>user\<close> and whose content is one \<^verbatim>\<open>image_url\<close> block per
  URL, in the order of the URLs.
\<close>

theorem ensure_multimodal_message_creates_user_turn:
  assumes "list_all other_role ms" and "image_urls \<noteq> []"
  shows "ensure_multimodal_message (JList ms) image_urls =
           Inr (JList (ms @ [JObj [(str ''role'', JStr (str ''user'')),
                                   (str ''content'', JList (map img_block image_urls))]]))"
  using assms find_last_user_none [of "length ms" ms]
  by (simp add: ensure_multimodal_message_def py_len_def py_list_def iter_items_def)

theorem ensure_multimodal_message_creates_user_turn_witness:
  "list_all other_role [JObj [(str ''role'', JStr (str ''system'')), (str ''content'', JStr (str ''sys''))]]
   \<and> [str ''http://host/a.png''] \<noteq> []
   \<and> ensure_multimodal_message
        (JList [JObj [(str ''role'', JStr (str ''system'')), (str ''content'', JStr (str ''sys''))]])
        [str ''http://host/a.png'']
      = Inr (JList
          [JObj [(str ''role'', JStr (str ''system'')), (str ''content'', JStr (str ''sys''))],
           JObj [(str ''role'', JStr (str ''user'')),
                 (str ''content'',
                  JList [JObj [(str ''type'', JStr (str ''image_url'')),
                               (str ''image_url'', JObj [(str ''url'', JStr (str ''http://host/a.png''))])]])]])"
proof -
  have h: "list_all other_role
      [JObj [(str ''role'', JStr (str ''system'')), (str ''content'', JStr (str ''sys''))]]"
    by (simp add: other_role_def dict_get_def)
  show ?thesis
    using h ensure_multimodal_message_creates_user_turn [OF h, of "[str ''http://host/a.png'']"]
    by (simp add: img_block_def)
qed




section \<open>Properties of the message composer over a store\<close>

lemma unchanged_refl: "unchanged h h"
  by (simp add: unchanged_def)

lemma unchanged_length: "unchanged h0 h \<Longrightarrow> length h0 \<le> length h"
  by (metis unchanged_def length_take min.cobounded1)

lemma unchanged_nth: "unchanged h0 h \<Longrightarrow> a < length h0 \<Longrightarrow> h ! a = h0 ! a"
  by (metis unchanged_def nth_take)

lemma unchanged_alloc:
  "unchanged h0 h \<Longrightarrow> alloc h obj = (a, h') \<Longrightarrow>
     unchanged h0 h' \<and> a = length h \<and> length h' = Suc (length h) \<and> h' ! a = obj
     \<and> (\<forall>b<length h. h' ! b = h ! b)"
  using unchanged_length [of h0 h]
  by (auto simp: unchanged_def alloc_def nth_append)

lemma unchanged_update:
  "unchanged h0 h \<Longrightarrow> length h0 \<le> a \<Longrightarrow> unchanged h0 (h[a := obj])"
  by (simp add: unchanged_def)

lemma unchanged_alloc_img_blocks:
  "unchanged h0 h \<Longrightarrow> alloc_img_blocks h urls = (bs, h') \<Longrightarrow>
     unchanged h0 h' \<and> length h \<le> length h' \<and> (\<forall>b<length h. h' ! b = h ! b)"
proof (induction urls arbitrary: h bs h')
  case Nil
  then show ?case by simp
next
  case (Cons url urls)
  obtain inner h1 where a1: "alloc h (ODict [(str ''url'', VStr url)]) = (inner, h1)"
    by (cases "alloc h (ODict [(str ''url'', VStr url)])")
  obtain block h2 where a2: "alloc h1 (ODict [(str ''type'', VStr (str ''image_url'')),
      (str ''image_url'', VRef inner)]) = (block, h2)"
    by (cases "alloc h1 (ODict [(str ''type'', VStr (str ''image_url'')),
      (str ''image_url'', VRef inner)])")
  obtain rest h3 where a3: "alloc_img_blocks h2 urls = (rest, h3)"
    by (cases "alloc_img_blocks h2 urls")
  from Cons.prems(2) a1 a2 a3 have h': "h' = h3"
    by (simp del: map_eq_conv)
  note u1 = unchanged_alloc [OF Cons.prems(1) a1]
  note u2 = unchanged_alloc [OF conjunct1 [OF u1] a2]
  note u3 = Cons.IH [OF conjunct1 [OF u2] a3]
  show ?case using u1 u2 u3 h' by auto
qed


lemma unchanged_iff:
  "unchanged h0 h \<longleftrightarrow> length h0 \<le> length h \<and> (\<forall>b<length h0. h ! b = h0 ! b)"
  by (auto simp: unchanged_def list_eq_iff_nth_eq)

lemma list_append_frame:
  "length (list_append h a v) = length h \<and> (\<forall>b. b \<noteq> a \<longrightarrow> list_append h a v ! b = h ! b)"
  by (simp add: list_append_def split: pobj.splits)

lemma list_extend_frame:
  "length (list_extend h a b) = length h \<and> (\<forall>c. c \<noteq> a \<longrightarrow> list_extend h a b ! c = h ! c)"
  by (simp add: list_extend_def split: pobj.splits)

lemma dict_store_frame:
  "length (dict_store h a k v) = length h \<and> (\<forall>b. b \<noteq> a \<longrightarrow> dict_store h a k v ! b = h ! b)"
  by (simp add: dict_store_def split: pobj.splits)

lemma dict_store_at:
  "a < length h \<Longrightarrow> h ! a = ODict d \<Longrightarrow> dict_store h a k v ! a = ODict (dict_set d k v)"
  by (simp add: dict_store_def)

lemma set_content_h_shape:
  "\<exists>h1 v. length h \<le> length h1 \<and> (\<forall>b<length h. h1 ! b = h ! b)
     \<and> set_content_h h um content ib = dict_store h1 um (str ''content'') v"
proof (cases content)
  case (VStr s)
  define h1 where "h1 = h @ [OList []]"
  define h2 where "h2 = (if strip s \<noteq> [] then
      list_append (h1 @ [ODict [(str ''type'', VStr (str ''text'')), (str ''text'', content)]])
        (length h) (VRef (length h1))
    else h1)"
  define h3 where "h3 = list_extend h2 (length h) ib"
  have eq: "set_content_h h um content ib = dict_store h3 um (str ''content'') (VRef (length h))"
    by (simp add: set_content_h_def VStr alloc_def h1_def h2_def h3_def Let_def)
  have "length h \<le> length h2 \<and> (\<forall>b<length h. h2 ! b = h ! b)"
    using list_append_frame
      [of "h1 @ [ODict [(str ''type'', VStr (str ''text'')), (str ''text'', content)]]"
        "length h" "VRef (length h1)"]
    by (auto simp: h2_def h1_def nth_append)
  then have "length h \<le> length h3 \<and> (\<forall>b<length h. h3 ! b = h ! b)"
    using list_extend_frame [of h2 "length h" ib] by (auto simp: h3_def)
  with eq show ?thesis by blast
next
  case VNone
  then show ?thesis
    by (intro exI [of _ h] exI [of _ "VRef ib"]) (simp add: set_content_h_def deref_def)
next
  case (VBool x)
  then show ?thesis
    by (intro exI [of _ h] exI [of _ "VRef ib"]) (simp add: set_content_h_def deref_def)
next
  case (VNum x)
  then show ?thesis
    by (intro exI [of _ h] exI [of _ "VRef ib"]) (simp add: set_content_h_def deref_def)
next
  case (VNonFinite x)
  then show ?thesis
    by (intro exI [of _ h] exI [of _ "VRef ib"]) (simp add: set_content_h_def deref_def)
next
  case (VRef c)
  show ?thesis
  proof (cases "\<exists>blocks imgs. deref h content = Some (OList blocks)
      \<and> deref h (VRef ib) = Some (OList imgs)")
    case True
    then obtain blocks imgs where "deref h content = Some (OList blocks)"
      "deref h (VRef ib) = Some (OList imgs)" by blast
    then have "set_content_h h um content ib
        = dict_store (h @ [OList (blocks @ imgs)]) um (str ''content'') (VRef (length h))"
      by (simp add: set_content_h_def VRef alloc_def)
    then show ?thesis
      by (intro exI [of _ "h @ [OList (blocks @ imgs)]"] exI [of _ "VRef (length h)"])
        (simp add: nth_append)
  next
    case False
    then have "set_content_h h um content ib = dict_store h um (str ''content'') (VRef ib)"
      by (auto simp: set_content_h_def VRef split: option.splits pobj.splits)
    then show ?thesis
      by (intro exI [of _ h] exI [of _ "VRef ib"]) simp
  qed
qed

lemma set_content_h_frame:
  assumes "unchanged h0 h" and "length h0 \<le> um" and "um < length h" and "h ! um = ODict d"
  shows "unchanged h0 (set_content_h h um content ib)
       \<and> length h \<le> length (set_content_h h um content ib)
       \<and> (\<exists>c. set_content_h h um content ib ! um = ODict (dict_set d (str ''content'') c))
       \<and> (\<forall>b<length h. b \<noteq> um \<longrightarrow> set_content_h h um content ib ! b = h ! b)"
proof -
  obtain h1 v where h1: "length h \<le> length h1" "\<forall>b<length h. h1 ! b = h ! b"
    and eq: "set_content_h h um content ib = dict_store h1 um (str ''content'') v"
    using set_content_h_shape by blast
  have at: "dict_store h1 um (str ''content'') v ! um = ODict (dict_set d (str ''content'') v)"
    using h1 assms(3,4) by (intro dict_store_at) auto
  note fr = dict_store_frame [of h1 um "str ''content''" v]
  have "unchanged h0 (dict_store h1 um (str ''content'') v)"
    using assms(1,2) h1 fr by (auto simp: unchanged_iff)
  then show ?thesis
    using h1 fr at by (auto simp: eq)
qed

lemma find_last_user_h_Some:
  "find_last_user_h h (VRef a) n = Inr (Some idx) \<Longrightarrow> a < length h \<Longrightarrow> h ! a = OList ms \<Longrightarrow>
     idx < n \<and> idx < length ms
     \<and> (\<exists>ad d. ms ! idx = VRef ad \<and> ad < length h \<and> h ! ad = ODict d)"
proof (induction n)
  case 0
  then show ?case by simp
next
  case (Suc n)
  show ?case
  proof (cases "idx = n")
    case True
    with Suc.prems show ?thesis
      by (auto simp: index_h_def method_get_h_def deref_def
          split: sum.splits if_splits option.splits pobj.splits pval.splits)
  next
    case False
    with Suc.prems have "find_last_user_h h (VRef a) n = Inr (Some idx)"
      by (auto split: sum.splits if_splits)
    from Suc.IH [OF this Suc.prems(2,3)] show ?thesis by auto
  qed
qed

lemma find_last_user_h_total:
  assumes "a < length h" and "h ! a = OList ms" and "list_all (is_dict_ref h) ms"
  shows "n \<le> length ms \<Longrightarrow> \<exists>r. find_last_user_h h (VRef a) n = Inr r"
proof (induction n)
  case 0
  show ?case by simp
next
  case (Suc n)
  then have n: "n < length ms" and IH: "\<exists>r. find_last_user_h h (VRef a) n = Inr r"
    by simp_all
  from n assms(3) have "is_dict_ref h (ms ! n)"
    by (simp add: list_all_length)
  then obtain d where "deref h (ms ! n) = Some (ODict d)"
    by (auto simp: is_dict_ref_def split: option.splits pobj.splits)
  with n IH assms(1,2) show ?case
    by (auto simp: index_h_def method_get_h_def deref_def)
qed

text \<open>
  C7. Let \<open>messages\<close> refer to a list \<open>ms\<close> of references to dicts, and let the list
  of image URLs be non-empty. Then the composer returns, and its result is a list object
  that did not exist before; every object of the input store, so the input list, its
  messages and all they refer to, is afterwards as it was. When no message has role
  \<^verbatim>\<open>user\<close>, the new list is the old one followed by one new message. Otherwise it is
  the old list with the entry of the last user message replaced by a new dict: every
  other entry is the reference it was, and the new dict agrees with the old user
  message on every key but \<^verbatim>\<open>content\<close>.
\<close>

theorem ensure_multimodal_message_frame:
  assumes urls: "image_urls \<noteq> []" and a: "a < length h" "h ! a = OList ms"
    and wf: "list_all (is_dict_ref h) ms"
  shows "\<exists>a' h' ms'.
           ensure_multimodal_message_h h (VRef a) image_urls = Inr (VRef a', h')
         \<and> unchanged h h' \<and> length h \<le> a' \<and> a' < length h' \<and> h' ! a' = OList ms'
         \<and> (case find_last_user_h h (VRef a) (length ms) of
              Inl e \<Rightarrow> False
            | Inr None \<Rightarrow>
                (\<exists>new ib. ms' = ms @ [VRef new] \<and> length h \<le> new \<and> new < length h'
                   \<and> h' ! new = ODict [(str ''role'', VStr (str ''user'')),
                                       (str ''content'', VRef ib)])
            | Inr (Some idx) \<Rightarrow>
                (\<exists>ad d um d'. idx < length ms \<and> ms ! idx = VRef ad \<and> ad < length h
                   \<and> h ! ad = ODict d \<and> ms' = ms[idx := VRef um]
                   \<and> length h \<le> um \<and> um < length h' \<and> h' ! um = ODict d'
                   \<and> (\<forall>k. k \<noteq> str ''content'' \<longrightarrow> map_of d' k = map_of d k)))"
proof -
  have len: "len_h h (VRef a) = Inr (length ms)"
    using a by (simp add: len_h_def deref_def)
  obtain user_idx where scan: "find_last_user_h h (VRef a) (length ms) = Inr user_idx"
    using find_last_user_h_total [OF a wf, of "length ms"] by auto
  obtain blocks h1 where b: "alloc_img_blocks h image_urls = (blocks, h1)"
    by (cases "alloc_img_blocks h image_urls")
  obtain img_blocks h2 where i: "alloc h1 (OList blocks) = (img_blocks, h2)"
    by (cases "alloc h1 (OList blocks)")
  note u1 = unchanged_alloc_img_blocks [OF unchanged_refl b]
  note u2 = unchanged_alloc [OF conjunct1 [OF u1] i]
  have h2a: "a < length h2" "h2 ! a = OList ms"
    using a u1 u2 by auto
  have items2: "items_h h2 (VRef a) = Inr ms"
    using h2a by (simp add: items_h_def deref_def)
  show ?thesis
  proof (cases user_idx)
    case None
    obtain new_msg h3 where n: "alloc h2 (ODict [(str ''role'', VStr (str ''user'')),
        (str ''content'', VRef img_blocks)]) = (new_msg, h3)"
      by (cases "alloc h2 (ODict [(str ''role'', VStr (str ''user'')),
        (str ''content'', VRef img_blocks)])")
    obtain copy h4 where c: "alloc h3 (OList ms) = (copy, h4)"
      by (cases "alloc h3 (OList ms)")
    obtain single h5 where s: "alloc h4 (OList [VRef new_msg]) = (single, h5)"
      by (cases "alloc h4 (OList [VRef new_msg])")
    obtain result h6 where r: "alloc h5 (OList (ms @ [VRef new_msg])) = (result, h6)"
      by (cases "alloc h5 (OList (ms @ [VRef new_msg]))")
    note u3 = unchanged_alloc [OF conjunct1 [OF u2] n]
    note u4 = unchanged_alloc [OF conjunct1 [OF u3] c]
    note u5 = unchanged_alloc [OF conjunct1 [OF u4] s]
    note u6 = unchanged_alloc [OF conjunct1 [OF u5] r]
    have run: "ensure_multimodal_message_h h (VRef a) image_urls = Inr (VRef result, h6)"
      using urls len scan None b i items2 n c s r
      by (simp add: ensure_multimodal_message_h_def del: map_eq_conv)
    have new: "h6 ! new_msg = ODict [(str ''role'', VStr (str ''user'')), (str ''content'', VRef img_blocks)]"
      "length h \<le> new_msg" "new_msg < length h6"
      using u1 u2 u3 u4 u5 u6 by auto
    have res: "h6 ! result = OList (ms @ [VRef new_msg])" "length h \<le> result" "result < length h6"
      using u1 u2 u3 u4 u5 u6 by auto
    have body: "\<exists>new ib. ms @ [VRef new_msg] = ms @ [VRef new] \<and> length h \<le> new \<and> new < length h6
        \<and> h6 ! new = ODict [(str ''role'', VStr (str ''user'')), (str ''content'', VRef ib)]"
      using new by blast
    show ?thesis
      by (intro exI [of _ result] exI [of _ h6] exI [of _ "ms @ [VRef new_msg]"] conjI)
        (use run res body u6 in \<open>simp_all add: scan None del: map_eq_conv\<close>)
  next
    case (Some idx)
    from find_last_user_h_Some [OF scan [unfolded Some] a]
    obtain ad d where idx: "idx < length ms" "ms ! idx = VRef ad" "ad < length h" "h ! ad = ODict d"
      by auto
    have ix: "index_h h2 (VRef a) idx = Inr (VRef ad)"
      using h2a idx by (simp add: index_h_def deref_def)
    have dr: "deref h2 (VRef ad) = Some (ODict d)"
      using idx u1 u2 by (auto simp: deref_def)
    obtain user_msg h3 where m: "alloc h2 (ODict d) = (user_msg, h3)"
      by (cases "alloc h2 (ODict d)")
    note u3 = unchanged_alloc [OF conjunct1 [OF u2] m]
    define content where "content = (case map_of d (str ''content'') of None \<Rightarrow> VStr [] | Some c \<Rightarrow> c)"
    define h4 where "h4 = set_content_h h3 user_msg content img_blocks"
    have um: "length h \<le> user_msg" "user_msg < length h3" "h3 ! user_msg = ODict d"
      using u1 u2 u3 by auto
    note f = set_content_h_frame [OF conjunct1 [OF u3] um, of content img_blocks, folded h4_def]
    from f obtain c where c: "h4 ! user_msg = ODict (dict_set d (str ''content'') c)"
      by blast
    have h4a: "a < length h4" "h4 ! a = OList ms"
      using f h2a u3 um a by auto
    have items4: "items_h h4 (VRef a) = Inr ms"
      using h4a by (simp add: items_h_def deref_def)
    obtain copy h5 where cp: "alloc h4 (OList ms) = (copy, h5)"
      by (cases "alloc h4 (OList ms)")
    note u5 = unchanged_alloc [OF conjunct1 [OF f] cp]
    define h' where "h' = list_store h5 copy idx (VRef user_msg)"
    have run: "ensure_multimodal_message_h h (VRef a) image_urls = Inr (VRef copy, h')"
      using urls len scan Some b i ix dr m items4 cp
      by (simp add: ensure_multimodal_message_h_def Let_def h4_def content_def h'_def
          del: map_eq_conv)
    have st: "h' = h5[copy := OList (ms[idx := VRef user_msg])]"
      using u5 by (auto simp: list_store_def h'_def)
    have copy: "length h \<le> copy" "copy < length h5" "user_msg < copy"
      using u5 f um by auto
    have un: "unchanged h h'"
      using st copy u5 by (simp add: unchanged_update)
    have hc: "h' ! copy = OList (ms[idx := VRef user_msg])" "copy < length h'"
      using st copy by simp_all
    have hu: "h' ! user_msg = ODict (dict_set d (str ''content'') c)" "user_msg < length h'"
      using st copy c u5 f um by auto
    have keep: "\<forall>k. k \<noteq> str ''content'' \<longrightarrow> map_of (dict_set d (str ''content'') c) k = map_of d k"
      by (simp add: map_of_dict_set)
    have body: "\<exists>ad d um d'. idx < length ms \<and> ms ! idx = VRef ad \<and> ad < length h
        \<and> h ! ad = ODict d \<and> ms[idx := VRef user_msg] = ms[idx := VRef um]
        \<and> length h \<le> um \<and> um < length h' \<and> h' ! um = ODict d'
        \<and> (\<forall>k. k \<noteq> str ''content'' \<longrightarrow> map_of d' k = map_of d k)"
      using idx um(1) hu keep by blast
    show ?thesis
      by (intro exI [of _ copy] exI [of _ h'] exI [of _ "ms[idx := VRef user_msg]"] conjI)
        (use run un copy hc body in \<open>simp_all add: scan Some del: map_eq_conv\<close>)
  qed
qed


theorem ensure_multimodal_message_frame_witness:
  "ensure_multimodal_message_h
     [OList [VRef 1, VRef 2],
      ODict [(str ''role'', VStr (str ''user'')), (str ''content'', VStr (str ''hi'')),
             (str ''name'', VStr (str ''n''))],
      ODict [(str ''role'', VStr (str ''assistant''))]]
     (VRef 0) [str ''U'']
   = Inr (VRef 9,
       [OList [VRef 1, VRef 2],
        ODict [(str ''role'', VStr (str ''user'')), (str ''content'', VStr (str ''hi'')),
               (str ''name'', VStr (str ''n''))],
        ODict [(str ''role'', VStr (str ''assistant''))],
        ODict [(str ''url'', VStr (str ''U''))],
        ODict [(str ''type'', VStr (str ''image_url'')), (str ''image_url'', VRef 3)],
        OList [VRef 4],
        ODict [(str ''role'', VStr (str ''user'')), (str ''content'', VRef 7),
               (str ''name'', VStr (str ''n''))],
        OList [VRef 8, VRef 4],
        ODict [(str ''type'', VStr (str ''text'')), (str ''text'', VStr (str ''hi''))],
        OList [VRef 6, VRef 2]])
   \<and> (\<exists>h'. ensure_multimodal_message_h
          [OList [VRef 1, VRef 2],
           ODict [(str ''role'', VStr (str ''user'')), (str ''content'', VStr (str ''hi'')),
                  (str ''name'', VStr (str ''n''))],
           ODict [(str ''role'', VStr (str ''assistant''))]]
          (VRef 0) [str ''U''] = Inr (VRef 9, h')
        \<and> unchanged
             [OList [VRef 1, VRef 2],
              ODict [(str ''role'', VStr (str ''user'')), (str ''content'', VStr (str ''hi'')),
                     (str ''name'', VStr (str ''n''))],
              ODict [(str ''role'', VStr (str ''assistant''))]] h')"
proof -
  let ?h = "[OList [VRef 1, VRef 2],
      ODict [(str ''role'', VStr (str ''user'')), (str ''content'', VStr (str ''hi'')),
             (str ''name'', VStr (str ''n''))],
      ODict [(str ''role'', VStr (str ''assistant''))]]"
  have run: "ensure_multimodal_message_h ?h (VRef 0) [str ''U''] = Inr (VRef 9,
       [OList [VRef 1, VRef 2],
        ODict [(str ''role'', VStr (str ''user'')), (str ''content'', VStr (str ''hi'')),
               (str ''name'', VStr (str ''n''))],
        ODict [(str ''role'', VStr (str ''assistant''))],
        ODict [(str ''url'', VStr (str ''U''))],
        ODict [(str ''type'', VStr (str ''image_url'')), (str ''image_url'', VRef 3)],
        OList [VRef 4],
        ODict [(str ''role'', VStr (str ''user'')), (str ''content'', VRef 7),
               (str ''name'', VStr (str ''n''))],
        OList [VRef 8, VRef 4],
        ODict [(str ''type'', VStr (str ''text'')), (str ''text'', VStr (str ''hi''))],
        OList [VRef 6, VRef 2]])"
    by (simp add: ensure_multimodal_message_h_def len_h_def deref_def index_h_def
        method_get_h_def items_h_def alloc_def set_content_h_def list_append_def
        list_extend_def list_store_def dict_store_def strip_def py_isspace_def Let_def)
  have u: "[str ''U''] \<noteq> []" by simp
  have a: "0 < length ?h" "?h ! 0 = OList [VRef 1, VRef 2]" by simp_all
  have wf: "list_all (is_dict_ref ?h) [VRef 1, VRef 2]"
    by (simp add: is_dict_ref_def deref_def)
  from ensure_multimodal_message_frame [OF u a wf]
  obtain a' h' where "ensure_multimodal_message_h ?h (VRef 0) [str ''U''] = Inr (VRef a', h')"
    "unchanged ?h h'" by blast
  with run show ?thesis by auto
qed


section \<open>Properties of the upstream relay\<close>

lemma gen_filter: "gen cs = filter (\<lambda>c. c \<noteq> []) cs"
  by (induction cs) simp_all

lemma concat_gen: "concat (gen cs) = concat cs"
  by (induction cs) simp_all





text \<open>
  C8. In streamed mode (\<^verbatim>\<open>stream\<close> truthy, a status that \<^verbatim>\<open>raise_for_status\<close> lets
  pass) the handler returns a streaming response whose chunks are the upstream's
  non-empty chunks, each as received and in the order received; no byte is lost; when
  no upstream chunk is empty, they are exactly the upstream's chunks. The chunks
  \<^verbatim>\<open>a\<close>, \<^verbatim>\<open>b\<close>, \<^verbatim>\<open>c\<close> are yielded as those three chunks in that order.
\<close>

theorem streamed_chunks_in_order:
  assumes "upstream_payload body = Inr payload"
    and "truthy (dict_get body (str ''stream'') (JBool False))"
    and "\<not> raise_for_status r"
  shows "chat_completions (Responded r) token render_error body =
           Inr (StreamingResponse 200
             (case content_type r of
                None \<Rightarrow> str ''text/event-stream''
              | Some t \<Rightarrow> if t \<noteq> [] then t else str ''text/event-stream'')
             (gen (chunks r)))
       \<and> gen (chunks r) = filter (\<lambda>c. c \<noteq> []) (chunks r)
       \<and> concat (gen (chunks r)) = concat (chunks r)
       \<and> ([] \<notin> set (chunks r) \<longrightarrow> gen (chunks r) = chunks r)
       \<and> gen [''a'', ''b'', ''c''] = [''a'', ''b'', ''c'']"
proof -
  have keep: "[] \<notin> set cs \<Longrightarrow> gen cs = cs" for cs
    by (induction cs) auto
  have sent: "chat_completions (Responded r) token render_error body =
      Inr (StreamingResponse 200
        (case content_type r of
           None \<Rightarrow> str ''text/event-stream''
         | Some t \<Rightarrow> if t \<noteq> [] then t else str ''text/event-stream'')
        (gen (chunks r)))"
    using assms by (simp add: chat_completions_def relay_def Let_def split: option.splits)
  show ?thesis
    using sent keep [of "chunks r"] by (simp add: gen_filter [symmetric] concat_gen)
qed

theorem streamed_chunks_in_order_witness:
  "chat_completions
     (Responded \<lparr>status_code = 200, content_type = Some (str ''text/event-stream''),
                 json_body = Inl [], chunks = [''a'', ''b'', ''c''], http_error_text = []\<rparr>)
     [] [] [(str ''stream'', JBool True)]
   = Inr (StreamingResponse 200 (str ''text/event-stream'') [''a'', ''b'', ''c''])"
proof -
  let ?body = "[(str ''stream'', JBool True)]"
  let ?r = "\<lparr>status_code = 200, content_type = Some (str ''text/event-stream''),
             json_body = Inl [], chunks = [''a'', ''b'', ''c''], http_error_text = []\<rparr>"
  have p: "upstream_payload ?body = Inr (dict_set ?body (str ''messages'') (JList []))"
    by (simp add: upstream_payload_def images_in_def dict_get_def py_or_def
        prepare_image_urls_def iter_items_def ensure_multimodal_message_def)
  have s: "truthy (dict_get ?body (str ''stream'') (JBool False))"
    by (simp add: dict_get_def)
  have ok: "\<not> raise_for_status ?r" by (simp add: raise_for_status_def)
  have "gen (chunks ?r) = chunks ?r"
    using streamed_chunks_in_order [OF p s ok, of "[]" "[]"] by simp
  then show ?thesis
    using p s ok by (simp add: chat_completions_def relay_def dict_get_def raise_for_status_def)
qed




text \<open>
  C10. When the body's \<^verbatim>\<open>images\<close> field is truthy, the descriptors are that field,
  and neither they nor the messages sent upstream depend on \<^verbatim>\<open>allImages\<close>: a body
  that differs only in \<^verbatim>\<open>allImages\<close> (another value, or none) gives the same. When
  \<^verbatim>\<open>images\<close> is absent or falsy, the descriptors are \<^verbatim>\<open>allImages\<close> if that is truthy
  and the empty list otherwise.
\<close>

theorem images_precedence:
  "(truthy (dict_get body (str ''images'') JNull) \<longrightarrow>
      images_in body = dict_get body (str ''images'') JNull
      \<and> ((\<forall>k. k \<noteq> str ''allImages'' \<longrightarrow> map_of body' k = map_of body k) \<longrightarrow>
           images_in body' = images_in body \<and> sent_messages body' = sent_messages body))
   \<and> (\<not> truthy (dict_get body (str ''images'') JNull) \<longrightarrow>
        images_in body = py_or (dict_get body (str ''allImages'') JNull) (JList []))"
proof -
  have same: "images_in body' = images_in body \<and> sent_messages body' = sent_messages body"
    if t: "truthy (dict_get body (str ''images'') JNull)"
      and eq: "\<forall>k. k \<noteq> str ''allImages'' \<longrightarrow> map_of body' k = map_of body k"
  proof -
    have get: "dict_get body' k dflt = dict_get body k dflt" if "k \<noteq> str ''allImages''" for k dflt
      using eq that by (simp add: dict_get_def)
    have i: "dict_get body' (str ''images'') JNull = dict_get body (str ''images'') JNull"
      by (rule get) simp
    have m: "dict_get body' (str ''messages'') JNull = dict_get body (str ''messages'') JNull"
      by (rule get) simp
    have im: "images_in body' = images_in body"
      using t i by (simp add: images_in_def py_or_def)
    show ?thesis
      using im m
      by (simp add: sent_messages_def upstream_payload_def dict_get_dict_set
          split: sum.splits)
  qed
  show ?thesis
    using same by (auto simp: images_in_def py_or_def)
qed

theorem images_precedence_witness:
  "truthy (dict_get [(str ''images'', JList [JStr (str ''QUJD'')]),
                     (str ''allImages'', JList [JStr (str ''other'')])] (str ''images'') JNull)
   \<and> images_in [(str ''images'', JList [JStr (str ''QUJD'')]),
                (str ''allImages'', JList [JStr (str ''other'')])] = JList [JStr (str ''QUJD'')]
   \<and> sent_messages [(str ''images'', JList [JStr (str ''QUJD'')])]
     = sent_messages [(str ''images'', JList [JStr (str ''QUJD'')]),
                      (str ''allImages'', JList [JStr (str ''other'')])]
   \<and> \<not> truthy (dict_get [(str ''images'', JList []), (str ''allImages'', JList [JStr (str ''other'')])]
           (str ''images'') JNull)
   \<and> images_in [(str ''images'', JList []), (str ''allImages'', JList [JStr (str ''other'')])]
     = JList [JStr (str ''other'')]"
proof -
  let ?b = "[(str ''images'', JList [JStr (str ''QUJD'')]),
             (str ''allImages'', JList [JStr (str ''other'')])]"
  let ?b' = "[(str ''images'', JList [JStr (str ''QUJD'')])]"
  let ?c = "[(str ''images'', JList []), (str ''allImages'', JList [JStr (str ''other'')])]"
  have t: "truthy (dict_get ?b (str ''images'') JNull)" by (simp add: dict_get_def)
  have f: "\<not> truthy (dict_get ?c (str ''images'') JNull)" by (simp add: dict_get_def)
  have eq: "\<forall>k. k \<noteq> str ''allImages'' \<longrightarrow> map_of ?b' k = map_of ?b k" by simp
  show ?thesis
    using t f eq images_precedence [of ?b ?b'] images_precedence [of ?c ?c]
    by (simp add: dict_get_def py_or_def)
qed

end
